theory Spec2Isabelle
  imports Main "HOL-Library.Word"
begin

section \<open>Byte buffers and views\<close>

text \<open>
  The decoding functions of \<^verbatim>\<open>src/app/page.tsx\<close> receive a \<^verbatim>\<open>DataView\<close>: a window of
  \<^verbatim>\<open>byteLength\<close> bytes, starting at \<^verbatim>\<open>byteOffset\<close>, into an \<^verbatim>\<open>ArrayBuffer\<close>. The accessors
  \<^verbatim>\<open>getUint8\<close>, \<^verbatim>\<open>getUint16\<close>, \<^verbatim>\<open>getInt8\<close> index relative to the window, whereas
  \<^verbatim>\<open>new Uint8Array(dataView.buffer, ...)\<close> indexes the underlying buffer itself. Both are kept
  apart here.
\<close>

type_synonym byte = "8 word"

record dataview =
  buffer :: "byte list"
  byteOffset :: nat
  byteLength :: nat

text \<open>
  A byte buffer handed over as a view of its own, \<^verbatim>\<open>new DataView(arrayBuffer)\<close>: the window
  is the whole buffer. The scan facility hands over every manufacturer-data and
  service-data payload in this form.
\<close>

definition of_bytes :: "byte list \<Rightarrow> dataview" where
  "of_bytes bs = \<lparr>buffer = bs, byteOffset = 0, byteLength = length bs\<rparr>"

datatype js_error = TypeError | RangeError

text \<open>
  A view whose window no longer fits its buffer (a resizable buffer that was shrunk after
  the view was made) is out of bounds; every access through it throws a \<^verbatim>\<open>TypeError\<close>.
\<close>

definition out_of_bounds :: "dataview \<Rightarrow> bool" where
  "out_of_bounds dv \<longleftrightarrow> length (buffer dv) < byteOffset dv + byteLength dv"

text \<open>Sequencing of steps that may throw: the first fault ends the computation.\<close>

definition then_do :: "js_error + 'a \<Rightarrow> ('a \<Rightarrow> js_error + 'b) \<Rightarrow> js_error + 'b" where
  "then_do m f = (case m of Inl e \<Rightarrow> Inl e | Inr x \<Rightarrow> f x)"

definition get_byteLength :: "dataview \<Rightarrow> js_error + nat" where
  "get_byteLength dv = (if out_of_bounds dv then Inl TypeError else Inr (byteLength dv))"

text \<open>The bytes of the window at index \<open>i\<close>, \<open>n\<close> of them; a \<^verbatim>\<open>RangeError\<close> past its end.\<close>

definition view_bytes :: "dataview \<Rightarrow> nat \<Rightarrow> nat \<Rightarrow> js_error + byte list" where
  "view_bytes dv i n =
     (if out_of_bounds dv then Inl TypeError
      else if byteLength dv < i + n then Inl RangeError
      else Inr (take n (drop (byteOffset dv + i) (buffer dv))))"

definition getUint8 :: "dataview \<Rightarrow> nat \<Rightarrow> js_error + nat" where
  "getUint8 dv i = then_do (view_bytes dv i 1) (\<lambda>bs. Inr (unat (hd bs)))"

text \<open>\<^verbatim>\<open>getUint16(i, false)\<close>: big-endian, the first byte is the high one.\<close>

definition getUint16 :: "dataview \<Rightarrow> nat \<Rightarrow> js_error + nat" where
  "getUint16 dv i =
     then_do (view_bytes dv i 2) (\<lambda>bs. Inr (unat (hd bs) * 256 + unat (hd (tl bs))))"

text \<open>\<^verbatim>\<open>getInt8\<close>: the byte in two's complement.\<close>

definition getInt8 :: "dataview \<Rightarrow> nat \<Rightarrow> js_error + int" where
  "getInt8 dv i = then_do (view_bytes dv i 1) (\<lambda>bs. Inr (sint (hd bs)))"

text \<open>
  \<^verbatim>\<open>new Uint8Array(buffer, byteOffset, length)\<close>: \<open>n\<close> bytes of the buffer itself from
  \<open>off\<close>; a \<^verbatim>\<open>RangeError\<close> when they do not fit.
\<close>

definition new_Uint8Array :: "byte list \<Rightarrow> nat \<Rightarrow> nat \<Rightarrow> js_error + byte list" where
  "new_Uint8Array buf off n =
     (if length buf < off + n then Inl RangeError else Inr (take n (drop off buf)))"

section \<open>Number and string helpers\<close>

definition digit_char :: "nat \<Rightarrow> char" where
  "digit_char d = ''0123456789abcdefghijklmnopqrstuvwxyz'' ! d"

text \<open>
  \<^verbatim>\<open>Number.prototype.toString(radix)\<close> on a non-negative integer; radix 10 is also what a
  template literal applies to a number.
\<close>

function toString :: "nat \<Rightarrow> nat \<Rightarrow> string" where
  "toString radix n =
     (if radix < 2 \<or> n < radix then [digit_char n]
      else toString radix (n div radix) @ [digit_char (n mod radix)])"
  by pat_completeness auto
termination
  by (relation "measure (\<lambda>(radix, n). n)") auto

declare toString.simps [simp del]

text \<open>The same for a signed integer: a minus sign before the digits of the magnitude.\<close>

definition toString_int :: "int \<Rightarrow> string" where
  "toString_int i = (if i < 0 then ''-'' @ toString 10 (nat (- i)) else toString 10 (nat i))"

definition padStart :: "nat \<Rightarrow> char \<Rightarrow> string \<Rightarrow> string" where
  "padStart n c s = replicate (n - length s) c @ s"

text \<open>\<^verbatim>\<open>Array.prototype.join\<close> on strings, for both kinds of text used below.\<close>

fun join :: "'a list \<Rightarrow> 'a list list \<Rightarrow> 'a list" where
  "join sep [] = []"
| "join sep [x] = x"
| "join sep (x # y # ys) = x @ sep @ join sep (y # ys)"

text \<open>The callback \<^verbatim>\<open>b => b.toString(16).padStart(2, '0')\<close>.\<close>

definition hex2 :: "byte \<Rightarrow> string" where
  "hex2 b = padStart 2 (CHR ''0'') (toString 16 (unat b))"

text \<open>
  \<^verbatim>\<open>.replace(/(.{8})(.{4})(.{4})(.{4})(.{12})/, '$1-$2-$3-$4-$5')\<close>: the leftmost run of 32
  characters other than line terminators is regrouped with hyphens, the rest is kept; a
  string without such a run is returned unchanged.
\<close>

definition line_terminator :: "char \<Rightarrow> bool" where
  "line_terminator c \<longleftrightarrow> c = CHR 0x0A \<or> c = CHR 0x0D"

definition hyphenate :: "string \<Rightarrow> string" where
  "hyphenate s =
     take 8 s @ ''-'' @ take 4 (drop 8 s) @ ''-'' @ take 4 (drop 12 s) @ ''-''
       @ take 4 (drop 16 s) @ ''-'' @ take 12 (drop 20 s)"

fun replace_uuid :: "string \<Rightarrow> string" where
  "replace_uuid [] = []"
| "replace_uuid (c # cs) =
     (if 32 \<le> length (c # cs) \<and> \<not> list_ex line_terminator (take 32 (c # cs))
      then hyphenate (take 32 (c # cs)) @ drop 32 (c # cs)
      else c # replace_uuid cs)"

section \<open>The iBeacon decoder\<close>

record ibeacon =
  uuid :: string
  major :: nat
  minor :: nat
  txPower :: int

text \<open>The body of the \<^verbatim>\<open>try\<close> block of \<^verbatim>\<open>parseiBeacon\<close>; \<open>Inr None\<close> is \<^verbatim>\<open>return null\<close>.\<close>

definition parseiBeacon_try :: "dataview \<Rightarrow> js_error + ibeacon option" where
  "parseiBeacon_try dataView =
     then_do (get_byteLength dataView) (\<lambda>len.
     if len < 23 then Inr None
     else
       then_do (getUint8 dataView 0) (\<lambda>type.
       then_do (getUint8 dataView 1) (\<lambda>subType.
       if type \<noteq> 0x02 \<or> subType \<noteq> 0x15 then Inr None
       else
         then_do (new_Uint8Array (buffer dataView) 2 16) (\<lambda>arr.
         then_do (getUint16 dataView 18) (\<lambda>mj.
         then_do (getUint16 dataView 20) (\<lambda>mn.
         then_do (getInt8 dataView 22) (\<lambda>tx.
         Inr (Some \<lparr>uuid = replace_uuid (join [] (map hex2 arr)),
                    major = mj, minor = mn, txPower = tx\<rparr>))))))))"

text \<open>\<^verbatim>\<open>parseiBeacon\<close>: the \<^verbatim>\<open>catch\<close> clause turns every fault into \<^verbatim>\<open>null\<close>.\<close>

definition parseiBeacon :: "dataview \<Rightarrow> ibeacon option" where
  "parseiBeacon dataView =
     (case parseiBeacon_try dataView of Inl error \<Rightarrow> None | Inr r \<Rightarrow> r)"

definition canonical :: "byte list" where
  "canonical =
     [0x02, 0x15, 0xE2, 0xC5, 0x6D, 0xB5, 0xDF, 0xFB, 0x48, 0xD2, 0xB0, 0x60, 0xD0, 0xF5,
      0xA7, 0x10, 0x96, 0xE0, 0x01, 0x02, 0x00, 0x03, 0xC5]"


section \<open>Text with characters beyond ASCII\<close>

text \<open>
  The log lines carry emoji, box-drawing characters and whatever the text decoder yields,
  so they are lists of Unicode code points; \<open>lit\<close> embeds an ASCII string.
\<close>

type_synonym jsstring = "nat list"

definition lit :: "string \<Rightarrow> jsstring" where
  "lit s = map of_char s"

section \<open>The byte-buffer formatter\<close>

text \<open>
  \<^verbatim>\<open>new TextDecoder('ascii')\<close>: in the Encoding Standard the label \<^verbatim>\<open>ascii\<close> names
  windows-1252, a single-byte encoding. Its decoder returns the code point of the same
  value for a byte below \<^verbatim>\<open>0x80\<close> and looks every other byte up in the encoding's index;
  a byte without an entry is an error, which a decoder made without \<^verbatim>\<open>fatal\<close> replaces
  by U+FFFD.
\<close>

definition replacement_character :: nat where
  "replacement_character = 0xFFFD"

definition windows_1252_index :: "nat \<Rightarrow> nat option" where
  "windows_1252_index p =
     (if p < 32 then
        Some ([0x20AC, 0x0081, 0x201A, 0x0192, 0x201E, 0x2026, 0x2020, 0x2021,
               0x02C6, 0x2030, 0x0160, 0x2039, 0x0152, 0x008D, 0x017D, 0x008F,
               0x0090, 0x2018, 0x2019, 0x201C, 0x201D, 0x2022, 0x2013, 0x2014,
               0x02DC, 0x2122, 0x0161, 0x203A, 0x0153, 0x009D, 0x017E, 0x0178] ! p)
      else if p < 128 then Some (p + 0x80)
      else None)"

definition single_byte_decode :: "(nat \<Rightarrow> nat option) \<Rightarrow> byte \<Rightarrow> nat" where
  "single_byte_decode index b =
     (if unat b < 0x80 then unat b
      else case index (unat b - 0x80) of
             None \<Rightarrow> replacement_character
           | Some code_point \<Rightarrow> code_point)"

text \<open>The two renderings of \<^verbatim>\<open>logDataView\<close>, both of the whole \<^verbatim>\<open>valueDataView.buffer\<close>.\<close>

definition hexString :: "byte list \<Rightarrow> string" where
  "hexString buf = join '' '' (map hex2 buf)"

definition asciiString :: "byte list \<Rightarrow> jsstring" where
  "asciiString buf = map (single_byte_decode windows_1252_index) buf"

text \<open>\<^verbatim>\<open>logDataView\<close>: the one message it passes to \<^verbatim>\<open>log\<close>; the key arrives as text.\<close>

definition logDataView :: "jsstring \<Rightarrow> jsstring \<Rightarrow> dataview \<Rightarrow> jsstring" where
  "logDataView labelOfDataSource key valueDataView =
     lit ''  '' @ labelOfDataSource @ lit '' Data: '' @ key @ [0x0A]
       @ lit ''    (Hex) '' @ lit (hexString (buffer valueDataView)) @ [0x0A]
       @ lit ''    (ASCII) '' @ asciiString (buffer valueDataView)"

section \<open>Company identifiers\<close>

definition companies :: "(nat \<times> string) list" where
  "companies =
     [(6, ''Microsoft Corporation''), (76, ''Apple, Inc.''), (224, ''Google''),
      (89, ''Nuheara Limited''), (117, ''Tencent Holdings Ltd.'')]"

text \<open>\<^verbatim>\<open>companies[id] || `Unknown Company (${id})`\<close>: a missing or empty name gives the label.\<close>

definition getCompanyName :: "nat \<Rightarrow> string" where
  "getCompanyName cid =
     (case map_of companies cid of
        Some name \<Rightarrow> if name = [] then ''Unknown Company ('' @ toString 10 cid @ '')'' else name
      | None \<Rightarrow> ''Unknown Company ('' @ toString 10 cid @ '')'')"

section \<open>The advertisement handler\<close>

record advertisement_event =
  device_name :: "jsstring option"
  device_id :: jsstring
  rssi :: "int option"
  event_txPower :: "int option"
  uuids :: "jsstring list option"
  manufacturerData :: "(nat \<times> dataview) list"
  serviceData :: "(jsstring \<times> dataview) list"

text \<open>\<^verbatim>\<open>JSON.stringify\<close> of an array of strings.\<close>

definition json_escape :: "nat \<Rightarrow> jsstring" where
  "json_escape cp =
     (if cp = 0x08 then [0x5C, 0x62]
      else if cp = 0x09 then [0x5C, 0x74]
      else if cp = 0x0A then [0x5C, 0x6E]
      else if cp = 0x0C then [0x5C, 0x66]
      else if cp = 0x0D then [0x5C, 0x72]
      else if cp = 0x22 then [0x5C, 0x22]
      else if cp = 0x5C then [0x5C, 0x5C]
      else if cp < 0x20 \<or> (0xD800 \<le> cp \<and> cp \<le> 0xDFFF)
        then [0x5C, 0x75] @ lit (padStart 4 (CHR ''0'') (toString 16 cp))
      else [cp])"

definition JSON_stringify :: "jsstring list \<Rightarrow> jsstring" where
  "JSON_stringify arr =
     [0x5B] @ join [0x2C] (map (\<lambda>s. [0x22] @ concat (map json_escape s) @ [0x22]) arr) @ [0x5D]"

text \<open>
  The callback of \<^verbatim>\<open>event.manufacturerData.forEach\<close>: the messages it logs, in order. A
  recognised iBeacon returns early, before the raw formatting.
\<close>

definition manufacturerEntry :: "nat \<times> dataview \<Rightarrow> jsstring list" where
  "manufacturerEntry entry =
     (case entry of (key, valueDataView) \<Rightarrow>
        [lit ''    Company: '' @ lit (getCompanyName key) @ lit '' (ID: ''
           @ lit (toString 10 key) @ lit '')'']
        @ (case (if key = 76 then parseiBeacon valueDataView else None) of
             Some iBeaconData \<Rightarrow>
               [lit ''    '' @ [0x1F3AF] @ lit '' iBeacon Detected!'',
                lit ''      UUID: '' @ lit (uuid iBeaconData),
                lit ''      Major: '' @ lit (toString 10 (major iBeaconData)),
                lit ''      Minor: '' @ lit (toString 10 (minor iBeaconData)),
                lit ''      TX Power: '' @ lit (toString_int (txPower iBeaconData)) @ lit '' dBm'']
           | None \<Rightarrow> [logDataView (lit ''    Data'') [] valueDataView]))"

definition serviceEntry :: "jsstring \<times> dataview \<Rightarrow> jsstring list" where
  "serviceEntry entry =
     (case entry of (key, valueDataView) \<Rightarrow> [logDataView (lit ''    Service'') key valueDataView])"

text \<open>\<^verbatim>\<open>handleAdvertisement\<close>: the argument of every \<^verbatim>\<open>log\<close> call it makes, in order.\<close>

definition handleAdvertisement :: "advertisement_event \<Rightarrow> jsstring list" where
  "handleAdvertisement event =
     [[0x2501, 0x2501, 0x2501] @ lit '' Advertisement received '' @ [0x2501, 0x2501, 0x2501],
      lit ''  Device Name: ''
        @ (case device_name event of
             None \<Rightarrow> lit ''Unknown''
           | Some name \<Rightarrow> if name = [] then lit ''Unknown'' else name),
      lit ''  Device ID (Chrome Internal): '' @ device_id event,
      lit ''  RSSI: ''
        @ (case rssi event of
             Some r \<Rightarrow> lit (toString_int r) @ lit '' dBm''
           | None \<Rightarrow> lit ''Unknown''),
      lit ''  TX Power: ''
        @ (case event_txPower event of
             Some t \<Rightarrow> lit (toString_int t) @ lit '' dBm''
           | None \<Rightarrow> lit ''Not provided''),
      lit ''  Service UUIDs: ''
        @ (case uuids event of
             None \<Rightarrow> lit ''None advertised''
           | Some us \<Rightarrow> if us = [] then lit ''None advertised'' else JSON_stringify us)]
     @ (if manufacturerData event \<noteq> []
        then [lit ''  '' @ [0x1F4F1] @ lit '' Manufacturer Data:'']
               @ concat (map manufacturerEntry (manufacturerData event))
        else [])
     @ (if serviceData event \<noteq> []
        then [lit ''  '' @ [0x1F527] @ lit '' Service Data:'']
               @ concat (map serviceEntry (serviceData event))
        else [])
     @ [[]]"

text \<open>
  \<^verbatim>\<open>log\<close> appends the message to the \<^verbatim>\<open>logs\<close> state behind the time of day, which is
  taken as an argument here.
\<close>

definition log :: "jsstring \<Rightarrow> jsstring \<Rightarrow> jsstring list \<Rightarrow> jsstring list" where
  "log time message logs = logs @ [time @ lit '': '' @ message]"

section \<open>The scan session\<close>

text \<open>
  The part of \<^verbatim>\<open>startScan\<close> and \<^verbatim>\<open>stopScan\<close> that concerns the session: the component's
  \<^verbatim>\<open>isScanning\<close> and \<^verbatim>\<open>currentScan\<close> state and, on the platform's side, the scans granted
  so far (a scan handle is its position, the entry is its \<^verbatim>\<open>active\<close> flag), the listeners
  registered for \<^verbatim>\<open>advertisementreceived\<close> on \<^verbatim>\<open>navigator.bluetooth\<close> (each is the
  \<^verbatim>\<open>handleAdvertisement\<close> closure of one \<^verbatim>\<open>startScan\<close> call, named by that call's scan), and
  the pending 30-second timers. The informational \<^verbatim>\<open>log\<close> calls of the two functions are
  left out.
\<close>

record scanner =
  isScanning :: bool
  currentScan :: "nat option"
  scans :: "bool list"
  listeners :: "nat list"
  timers :: "(nat \<times> nat option) list"

definition initial :: scanner where
  "initial = \<lparr>isScanning = False, currentScan = None, scans = [], listeners = [], timers = []\<rparr>"

text \<open>How \<^verbatim>\<open>await navigator.bluetooth.requestLEScan(options)\<close> ends.\<close>

datatype request_outcome = Granted | Rejected

text \<open>
  \<^verbatim>\<open>stopScan\<close> reads \<^verbatim>\<open>currentScan\<close> from the render that created the closure, so that
  value is an argument: the button passes the present one, a timer the one it captured.
\<close>

definition stopScan :: "nat option \<Rightarrow> scanner \<Rightarrow> scanner" where
  "stopScan captured st =
     (case captured of
        Some h \<Rightarrow>
          if h < length (scans st) \<and> scans st ! h
          then st\<lparr>scans := (scans st)[h := False], isScanning := False, currentScan := None\<rparr>
          else st\<lparr>isScanning := False, currentScan := None\<rparr>
      | None \<Rightarrow> st\<lparr>isScanning := False, currentScan := None\<rparr>)"

text \<open>
  \<^verbatim>\<open>startScan\<close>; \<open>available\<close> is \<^verbatim>\<open>isClient && navigator.bluetooth\<close>. The timer it sets
  calls the \<^verbatim>\<open>stopScan\<close> of the same render, whose \<^verbatim>\<open>currentScan\<close> is the one from before
  this call.
\<close>

definition startScan :: "bool \<Rightarrow> request_outcome \<Rightarrow> scanner \<Rightarrow> scanner" where
  "startScan available outcome st =
     (if \<not> available then st
      else case outcome of
             Rejected \<Rightarrow> st\<lparr>isScanning := False\<rparr>
           | Granted \<Rightarrow>
               st\<lparr>isScanning := True,
                  currentScan := Some (length (scans st)),
                  scans := scans st @ [True],
                  listeners := listeners st @ [length (scans st)],
                  timers := timers st @ [(length (scans st), currentScan st)]\<rparr>)"

text \<open>The callback of \<^verbatim>\<open>setTimeout\<close>, for the oldest pending timer.\<close>

definition fire_timer :: "scanner \<Rightarrow> scanner" where
  "fire_timer st =
     (case timers st of
        [] \<Rightarrow> st
      | (h, captured) # rest \<Rightarrow>
          if h < length (scans st) \<and> scans st ! h
          then stopScan captured (st\<lparr>timers := rest\<rparr>)
          else st\<lparr>timers := rest\<rparr>)"

text \<open>The main button: \<^verbatim>\<open>onClick={isScanning ? stopScan : startScan}\<close>.\<close>

definition click :: "bool \<Rightarrow> request_outcome \<Rightarrow> scanner \<Rightarrow> scanner" where
  "click available outcome st =
     (if isScanning st then stopScan (currentScan st) st else startScan available outcome st)"

text \<open>
  One advertisement: the platform calls every registered listener, and each logs the
  messages of \<^verbatim>\<open>handleAdvertisement\<close>.
\<close>

definition receive :: "advertisement_event \<Rightarrow> scanner \<Rightarrow> jsstring list" where
  "receive event st = concat (map (\<lambda>h. handleAdvertisement event) (listeners st))"

text \<open>An advertisement that carries nothing but the device identifier.\<close>

definition bare_event :: advertisement_event where
  "bare_event = \<lparr>device_name = None, device_id = [], rssi = None, event_txPower = None,
     uuids = None, manufacturerData = [], serviceData = []\<rparr>"

section \<open>The properties in the specification's terms\<close>

text \<open>Two lowercase hexadecimal digits for a byte, high nibble first.\<close>

definition hex_pair :: "byte \<Rightarrow> string" where
  "hex_pair b =
     [''0123456789abcdef'' ! (unat b div 16), ''0123456789abcdef'' ! (unat b mod 16)]"

text \<open>Sixteen bytes in the 8-4-4-4-12 form.\<close>

definition uuid_text :: "byte list \<Rightarrow> string" where
  "uuid_text bs =
     concat (map hex_pair (take 4 bs)) @ ''-'' @ concat (map hex_pair (take 2 (drop 4 bs))) @ ''-''
       @ concat (map hex_pair (take 2 (drop 6 bs))) @ ''-''
       @ concat (map hex_pair (take 2 (drop 8 bs))) @ ''-''
       @ concat (map hex_pair (take 6 (drop 10 bs)))"

text \<open>Two bytes as an unsigned 16-bit big-endian integer; a byte in two's complement.\<close>

definition be16 :: "byte \<Rightarrow> byte \<Rightarrow> nat" where
  "be16 hi lo = unat (word_cat hi lo :: 16 word)"

definition int8 :: "byte \<Rightarrow> int" where
  "int8 b = (if unat b < 128 then int (unat b) else int (unat b) - 256)"

text \<open>
  Reading a hexadecimal rendering back: the fields between spaces, each a pair of
  hexadecimal digits.
\<close>

fun space_fields :: "string \<Rightarrow> string \<Rightarrow> string list" where
  "space_fields w [] = (if w = [] then [] else [w])"
| "space_fields w (c # cs) =
     (if c = CHR '' '' then (if w = [] then [] else [w]) @ space_fields [] cs
      else space_fields (w @ [c]) cs)"

definition split_spaces :: "string \<Rightarrow> string list" where
  "split_spaces s = space_fields [] s"

definition hex_value :: "char \<Rightarrow> nat option" where
  "hex_value c =
     (let n = (of_char c :: nat)
      in if 48 \<le> n \<and> n \<le> 57 then Some (n - 48)
         else if 97 \<le> n \<and> n \<le> 102 then Some (n - 87)
         else None)"

definition parse_hex_pair :: "string \<Rightarrow> byte option" where
  "parse_hex_pair s =
     (case s of
        [h, l] \<Rightarrow>
          (case hex_value h of
             None \<Rightarrow> None
           | Some a \<Rightarrow> (case hex_value l of None \<Rightarrow> None | Some b \<Rightarrow> Some (of_nat (16 * a + b))))
      | _ \<Rightarrow> None)"

definition parse_hex_line :: "string \<Rightarrow> byte list option" where
  "parse_hex_line s = those (map parse_hex_pair (split_spaces s))"

text \<open>Reading a decimal numeral back.\<close>

definition decimal_value :: "string \<Rightarrow> nat" where
  "decimal_value s = foldl (\<lambda>acc c. 10 * acc + (of_char c - 48)) 0 s"

definition printable_ascii :: "byte \<Rightarrow> bool" where
  "printable_ascii b \<longleftrightarrow> 0x20 \<le> unat b \<and> unat b \<le> 0x7E"

definition known_companies :: "nat set" where
  "known_companies = {6, 76, 224, 89, 117}"

text \<open>
  The windows-1252 character of a byte, told apart from the decoder above: the byte's own
  code, except for the 27 bytes between \<^verbatim>\<open>0x80\<close> and \<^verbatim>\<open>0x9F\<close> that the encoding maps
  elsewhere.
\<close>

definition windows_1252_special :: "(nat \<times> nat) list" where
  "windows_1252_special =
     [(0x80, 0x20AC), (0x82, 0x201A), (0x83, 0x0192), (0x84, 0x201E), (0x85, 0x2026),
      (0x86, 0x2020), (0x87, 0x2021), (0x88, 0x02C6), (0x89, 0x2030), (0x8A, 0x0160),
      (0x8B, 0x2039), (0x8C, 0x0152), (0x8E, 0x017D), (0x91, 0x2018), (0x92, 0x2019),
      (0x93, 0x201C), (0x94, 0x201D), (0x95, 0x2022), (0x96, 0x2013), (0x97, 0x2014),
      (0x98, 0x02DC), (0x99, 0x2122), (0x9A, 0x0161), (0x9B, 0x203A), (0x9C, 0x0153),
      (0x9E, 0x017E), (0x9F, 0x0178)]"

definition windows_1252_char :: "byte \<Rightarrow> nat" where
  "windows_1252_char b =
     (case map_of windows_1252_special (unat b) of Some cp \<Rightarrow> cp | None \<Rightarrow> unat b)"


section \<open>Hexadecimal digits and the UUID text\<close>

lemma digit_char_hex: "d < 16 \<Longrightarrow> digit_char d = ''0123456789abcdef'' ! d"
proof -
  assume "d < 16"
  then have "d \<in> {0, 1, 2, 3, 4, 5, 6, 7, 8, 9, 10, 11, 12, 13, 14, 15}" by (simp add: numeral_eq_Suc less_Suc_eq)
  then show ?thesis by (auto simp: digit_char_def)
qed

lemma toString_small: "n < r \<Longrightarrow> toString r n = [digit_char n]"
  by (subst toString.simps) simp

lemma toString_two: "2 \<le> r \<Longrightarrow> r \<le> n \<Longrightarrow> n < r * r \<Longrightarrow>
   toString r n = [digit_char (n div r), digit_char (n mod r)]"
proof -
  assume r: "2 \<le> r" and n: "r \<le> n" "n < r * r"
  have "n div r < r" using n r by (simp add: less_mult_imp_div_less)
  then have "toString r (n div r) = [digit_char (n div r)]" by (rule toString_small)
  then show ?thesis using r n by (subst toString.simps) simp
qed

lemma hex2_hex_pair: "hex2 b = hex_pair b"
proof (cases "unat b < 16")
  case True
  then have "toString 16 (unat b) = [digit_char (unat b)]" by (rule toString_small)
  then show ?thesis using True
    by (simp add: hex2_def hex_pair_def padStart_def digit_char_hex)
next
  case False
  have "unat b < 256" using unsigned_less [of b, where ?'a = nat] by simp
  then have "toString 16 (unat b) = [digit_char (unat b div 16), digit_char (unat b mod 16)]"
    using False toString_two [of 16 "unat b"] by simp
  moreover have "unat b div 16 < 16" using \<open>unat b < 256\<close> by simp
  ultimately show ?thesis
    by (simp add: hex2_def hex_pair_def padStart_def digit_char_hex)
qed

lemma join_empty_concat: "join ([] :: 'a list) xs = concat xs"
  by (induction "[] :: 'a list" xs rule: join.induct) simp_all

lemma length_concat_hex_pair: "length (concat (map hex_pair bs)) = 2 * length bs"
  by (induction bs) (simp_all add: hex_pair_def)

lemma take_concat_hex_pair:
  "take (2 * n) (concat (map hex_pair bs)) = concat (map hex_pair (take n bs))"
proof (induction bs arbitrary: n)
  case Nil
  then show ?case by simp
next
  case (Cons b bs)
  show ?case
  proof (cases n)
    case 0
    then show ?thesis by simp
  next
    case (Suc m)
    have "take (2 * m) (concat (map hex_pair bs)) = concat (map hex_pair (take m bs))"
      by (rule Cons.IH)
    moreover obtain x y where "hex_pair b = [x, y]" by (simp add: hex_pair_def)
    ultimately show ?thesis using Suc by simp
  qed
qed

lemma drop_concat_hex_pair:
  "drop (2 * n) (concat (map hex_pair bs)) = concat (map hex_pair (drop n bs))"
proof (induction bs arbitrary: n)
  case Nil
  then show ?case by simp
next
  case (Cons b bs)
  show ?case
  proof (cases n)
    case 0
    then show ?thesis by simp
  next
    case (Suc m)
    have "drop (2 * m) (concat (map hex_pair bs)) = concat (map hex_pair (drop m bs))"
      by (rule Cons.IH)
    moreover obtain x y where "hex_pair b = [x, y]" by (simp add: hex_pair_def)
    ultimately show ?thesis using Suc by simp
  qed
qed

lemma hex_digit_no_terminator: "d < 16 \<Longrightarrow> \<not> line_terminator (''0123456789abcdef'' ! d)"
proof -
  assume "d < 16"
  then have "d \<in> {0, 1, 2, 3, 4, 5, 6, 7, 8, 9, 10, 11, 12, 13, 14, 15}"
    by (simp add: numeral_eq_Suc less_Suc_eq)
  then show ?thesis by (auto simp: line_terminator_def)
qed

lemma hex_pair_no_terminator: "c \<in> set (hex_pair b) \<Longrightarrow> \<not> line_terminator c"
proof -
  assume c: "c \<in> set (hex_pair b)"
  have "unat b < 256" using unsigned_less [of b, where ?'a = nat] by simp
  then have "unat b div 16 < 16" by simp
  moreover have "unat b mod 16 < 16" by simp
  ultimately show ?thesis using c hex_digit_no_terminator by (auto simp: hex_pair_def)
qed

lemma replace_uuid_32:
  assumes "length s = 32" and "\<forall>c \<in> set s. \<not> line_terminator c"
  shows "replace_uuid s = hyphenate s"
proof (cases s)
  case Nil
  then show ?thesis using assms by simp
next
  case (Cons c cs)
  have "\<not> list_ex line_terminator (take 32 s)"
    using assms by (simp add: list_ex_iff)
  then show ?thesis using assms Cons by simp
qed

lemma hyphenate_hex:
  assumes "length arr = 16"
  shows "hyphenate (concat (map hex_pair arr)) = uuid_text arr"
proof -
  let ?s = "concat (map hex_pair arr)"
  have t: "\<And>n. take (2 * n) ?s = concat (map hex_pair (take n arr))"
    by (rule take_concat_hex_pair)
  have d: "\<And>n. drop (2 * n) ?s = concat (map hex_pair (drop n arr))"
    by (rule drop_concat_hex_pair)
  have "take 8 ?s = concat (map hex_pair (take 4 arr))" using t [of 4] by simp
  moreover have "take 4 (drop 8 ?s) = concat (map hex_pair (take 2 (drop 4 arr)))"
    using d [of 4] take_concat_hex_pair [of 2 "drop 4 arr"] by simp
  moreover have "take 4 (drop 12 ?s) = concat (map hex_pair (take 2 (drop 6 arr)))"
    using d [of 6] take_concat_hex_pair [of 2 "drop 6 arr"] by simp
  moreover have "take 4 (drop 16 ?s) = concat (map hex_pair (take 2 (drop 8 arr)))"
    using d [of 8] take_concat_hex_pair [of 2 "drop 8 arr"] by simp
  moreover have "take 12 (drop 20 ?s) = concat (map hex_pair (take 6 (drop 10 arr)))"
    using d [of 10] take_concat_hex_pair [of 6 "drop 10 arr"] by simp
  ultimately show ?thesis by (simp add: hyphenate_def uuid_text_def)
qed

lemma uuid_of_bytes:
  assumes "length arr = 16"
  shows "replace_uuid (join [] (map hex2 arr)) = uuid_text arr"
proof -
  have eq: "join [] (map hex2 arr) = concat (map hex_pair arr)"
    using hex2_hex_pair by (simp add: join_empty_concat cong: map_cong)
  have len: "length (concat (map hex_pair arr)) = 32"
    using assms by (simp add: length_concat_hex_pair)
  have "\<forall>c \<in> set (concat (map hex_pair arr)). \<not> line_terminator c"
    using hex_pair_no_terminator by auto
  then have "replace_uuid (concat (map hex_pair arr)) = hyphenate (concat (map hex_pair arr))"
    using len by (rule replace_uuid_32 [rotated])
  then show ?thesis using eq assms by (simp add: hyphenate_hex)
qed

subsection \<open>Multi-byte and signed reads\<close>

lemma be16_eq: "be16 hi lo = unat hi * 256 + unat lo"
proof -
  have h: "unat hi < 256" using unsigned_less [of hi, where ?'a = nat] by simp
  have l: "unat lo < 256" using unsigned_less [of lo, where ?'a = nat] by simp
  have "(word_cat hi lo :: 16 word) = of_nat (unat hi * 256 + unat lo)"
    by (simp add: word_cat_eq push_bit_eq_mult)
  moreover have "unat (of_nat (unat hi * 256 + unat lo) :: 16 word)
      = (unat hi * 256 + unat lo) mod 65536"
    by (subst unat_of_nat) simp
  ultimately have "unat (word_cat hi lo :: 16 word) = (unat hi * 256 + unat lo) mod 65536"
    by (simp only:)
  then show ?thesis using h l by (simp add: be16_def)
qed

lemma int8_eq: "int8 b = sint b"
proof -
  have u: "uint b < 256" "0 \<le> uint b" using uint_lt2p [of b] by simp_all
  have m: "(uint b + 128) mod 256 = (if uint b < 128 then uint b + 128 else uint b - 128)"
  proof (cases "uint b < 128")
    case True
    then show ?thesis using u by simp
  next
    case False
    have e: "uint b + 128 = (uint b - 128) + 256" by simp
    have "(uint b + 128) mod 256 = (uint b - 128) mod 256"
      unfolding e by (rule mod_add_self2)
    also have "\<dots> = uint b - 128" using False u by simp
    finally show ?thesis using False by simp
  qed
  have "sint b = signed_take_bit 7 (uint b)" by (simp add: sint_uint)
  also have "\<dots> = (uint b + 128) mod 256 - 128"
    by (simp add: signed_take_bit_eq_take_bit_shift take_bit_eq_mod)
  also have "\<dots> = (if uint b < 128 then uint b else uint b - 256)"
    using m by simp
  finally have s: "sint b = (if uint b < 128 then uint b else uint b - 256)" .
  have c: "int (unat b) = uint b" by simp
  have "(unat b < 128) = (uint b < 128)" unfolding c [symmetric] by linarith
  then show ?thesis using s c by (simp add: int8_def)
qed

section \<open>What the decoder returns\<close>

lemma hd_take_drop: "i < length xs \<Longrightarrow> hd (take (Suc n) (drop i xs)) = xs ! i"
  by (simp add: hd_drop_conv_nth)

lemma second_take_drop:
  "Suc i < length xs \<Longrightarrow> hd (tl (take (Suc (Suc n)) (drop i xs))) = xs ! Suc i"
proof -
  assume a: "Suc i < length xs"
  then have "drop i xs = xs ! i # drop (Suc i) xs" by (simp add: Cons_nth_drop_Suc)
  then have "tl (take (Suc (Suc n)) (drop i xs)) = take (Suc n) (drop (Suc i) xs)" by simp
  then show ?thesis using a by (simp add: hd_drop_conv_nth)
qed

lemma getUint8_in_bounds:
  "\<not> out_of_bounds dv \<Longrightarrow> i < byteLength dv \<Longrightarrow>
     getUint8 dv i = Inr (unat (buffer dv ! (byteOffset dv + i)))"
  using hd_take_drop [of "byteOffset dv + i" "buffer dv" 0]
  by (simp add: getUint8_def view_bytes_def then_do_def out_of_bounds_def)

lemma getInt8_in_bounds:
  "\<not> out_of_bounds dv \<Longrightarrow> i < byteLength dv \<Longrightarrow>
     getInt8 dv i = Inr (int8 (buffer dv ! (byteOffset dv + i)))"
  using hd_take_drop [of "byteOffset dv + i" "buffer dv" 0]
  by (simp add: getInt8_def view_bytes_def then_do_def out_of_bounds_def int8_eq)

lemma getUint16_in_bounds:
  assumes "\<not> out_of_bounds dv" and "Suc i < byteLength dv"
  shows "getUint16 dv i =
     Inr (be16 (buffer dv ! (byteOffset dv + i)) (buffer dv ! (byteOffset dv + Suc i)))"
proof -
  have len: "Suc (byteOffset dv + i) < length (buffer dv)"
    using assms by (simp add: out_of_bounds_def)
  have "hd (take 2 (drop (byteOffset dv + i) (buffer dv))) = buffer dv ! (byteOffset dv + i)"
    using len hd_take_drop [of "byteOffset dv + i" "buffer dv" 1] by simp
  moreover have "hd (tl (take 2 (drop (byteOffset dv + i) (buffer dv))))
      = buffer dv ! (byteOffset dv + Suc i)"
    using len second_take_drop [of "byteOffset dv + i" "buffer dv" 0]
    by (simp add: numeral_2_eq_2)
  ultimately show ?thesis using assms
    by (simp add: getUint16_def view_bytes_def then_do_def be16_eq)
qed

lemma unat_byte_eq: "(unat (b :: byte) = unat (c :: byte)) = (b = c)"
  by (simp add: word_unat_eq_iff)

text \<open>
  The result on a view within bounds of at least 23 bytes. The marker bytes, major, minor
  and TX power are read through the window; the UUID is read from bytes 2 to 17 of the
  buffer underneath, which are the window's own bytes 2 to 17 when the window starts at
  offset 0.
\<close>

lemma parseiBeacon_try_in_bounds:
  assumes "\<not> out_of_bounds dv" and "23 \<le> byteLength dv"
  shows "parseiBeacon_try dv =
     Inr (if buffer dv ! byteOffset dv = 0x02 \<and> buffer dv ! (byteOffset dv + 1) = 0x15
          then Some \<lparr>uuid = uuid_text (take 16 (drop 2 (buffer dv))),
                     major = be16 (buffer dv ! (byteOffset dv + 18)) (buffer dv ! (byteOffset dv + 19)),
                     minor = be16 (buffer dv ! (byteOffset dv + 20)) (buffer dv ! (byteOffset dv + 21)),
                     txPower = int8 (buffer dv ! (byteOffset dv + 22))\<rparr>
          else None)"
proof -
  have len: "23 \<le> length (buffer dv)" using assms by (simp add: out_of_bounds_def)
  have g0: "getUint8 dv 0 = Inr (unat (buffer dv ! byteOffset dv))"
    using assms getUint8_in_bounds [of dv 0] by simp
  have g1: "getUint8 dv 1 = Inr (unat (buffer dv ! (byteOffset dv + 1)))"
    using assms getUint8_in_bounds [of dv 1] by simp
  have arr: "new_Uint8Array (buffer dv) 2 16 = Inr (take 16 (drop 2 (buffer dv)))"
    using len by (simp add: new_Uint8Array_def)
  have "length (take 16 (drop 2 (buffer dv))) = 16" using len by simp
  then have u: "replace_uuid (join [] (map hex2 (take 16 (drop 2 (buffer dv)))))
      = uuid_text (take 16 (drop 2 (buffer dv)))"
    by (rule uuid_of_bytes)
  have mj: "getUint16 dv 18 =
      Inr (be16 (buffer dv ! (byteOffset dv + 18)) (buffer dv ! (byteOffset dv + 19)))"
    using assms getUint16_in_bounds [of dv 18] by simp
  have mn: "getUint16 dv 20 =
      Inr (be16 (buffer dv ! (byteOffset dv + 20)) (buffer dv ! (byteOffset dv + 21)))"
    using assms getUint16_in_bounds [of dv 20] by simp
  have tx: "getInt8 dv 22 = Inr (int8 (buffer dv ! (byteOffset dv + 22)))"
    using assms getInt8_in_bounds [of dv 22] by simp
  have b0: "(unat (buffer dv ! byteOffset dv) = 2) = (buffer dv ! byteOffset dv = 2)"
    using unat_byte_eq [of "buffer dv ! byteOffset dv" 2] by simp
  have b1: "(unat (buffer dv ! (byteOffset dv + 1)) = 21) = (buffer dv ! (byteOffset dv + 1) = 21)"
    using unat_byte_eq [of "buffer dv ! (byteOffset dv + 1)" 21] by simp
  show ?thesis
    unfolding parseiBeacon_try_def get_byteLength_def
    using assms g0 g1 arr u mj mn tx b0 b1 by (simp add: then_do_def)
qed

lemma parseiBeacon_try_short:
  "\<not> out_of_bounds dv \<Longrightarrow> byteLength dv < 23 \<Longrightarrow> parseiBeacon_try dv = Inr None"
  by (simp add: parseiBeacon_try_def get_byteLength_def then_do_def)

lemma parseiBeacon_try_out_of_bounds:
  "out_of_bounds dv \<Longrightarrow> parseiBeacon_try dv = Inl TypeError"
  by (simp add: parseiBeacon_try_def get_byteLength_def then_do_def)

lemma of_bytes_in_bounds: "\<not> out_of_bounds (of_bytes bs)"
  by (simp add: out_of_bounds_def of_bytes_def)

lemma parseiBeacon_of_bytes:
  "parseiBeacon (of_bytes bs) =
     (if 23 \<le> length bs \<and> bs ! 0 = 0x02 \<and> bs ! 1 = 0x15
      then Some \<lparr>uuid = uuid_text (take 16 (drop 2 bs)),
                 major = be16 (bs ! 18) (bs ! 19), minor = be16 (bs ! 20) (bs ! 21),
                 txPower = int8 (bs ! 22)\<rparr>
      else None)"
proof (cases "23 \<le> length bs")
  case True
  then have "23 \<le> byteLength (of_bytes bs)" by (simp add: of_bytes_def)
  then show ?thesis
    using True parseiBeacon_try_in_bounds [OF of_bytes_in_bounds, of bs]
    by (simp add: parseiBeacon_def of_bytes_def)
next
  case False
  then have "byteLength (of_bytes bs) < 23" by (simp add: of_bytes_def)
  then show ?thesis
    using False parseiBeacon_try_short [OF of_bytes_in_bounds, of bs]
    by (simp add: parseiBeacon_def)
qed

section \<open>The decoder claims\<close>

text \<open>
  Claim C1. The canonical buffer \<^verbatim>\<open>02 15 E2 C5 6D B5 DF FB 48 D2 B0 60 D0 F5 A7 10 96 E0 01 02 00 03 C5\<close>
  decodes to the UUID \<^verbatim>\<open>e2c56db5-dffb-48d2-b060-d0f5a71096e0\<close>, major 258, minor 3 and
  TX power -59.
\<close>

theorem parseiBeacon_canonical:
  "parseiBeacon (of_bytes canonical) =
     Some \<lparr>uuid = ''e2c56db5-dffb-48d2-b060-d0f5a71096e0'', major = 258, minor = 3,
            txPower = - 59\<rparr>"
  by code_simp

text \<open>
  Claim C2. The decoder returns \<^verbatim>\<open>null\<close> exactly when the buffer has fewer than 23 bytes,
  or byte 0 is not \<^verbatim>\<open>0x02\<close>, or byte 1 is not \<^verbatim>\<open>0x15\<close>; in every other case it returns
  a record.
\<close>

theorem parseiBeacon_null_iff:
  "(parseiBeacon (of_bytes bs) = None) = (length bs < 23 \<or> bs ! 0 \<noteq> 0x02 \<or> bs ! 1 \<noteq> 0x15)
   \<and> (23 \<le> length bs \<and> bs ! 0 = 0x02 \<and> bs ! 1 = 0x15 \<longrightarrow>
        (\<exists>r. parseiBeacon (of_bytes bs) = Some r))"
  by (auto simp: parseiBeacon_of_bytes)

theorem parseiBeacon_null_iff_witness:
  "parseiBeacon (of_bytes canonical) \<noteq> None
   \<and> \<not> (length canonical < 23 \<or> canonical ! 0 \<noteq> 0x02 \<or> canonical ! 1 \<noteq> 0x15)
   \<and> parseiBeacon (of_bytes (take 22 canonical)) = None
   \<and> parseiBeacon (of_bytes (canonical[1 := 0x16])) = None"
  using parseiBeacon_null_iff [of canonical] parseiBeacon_null_iff [of "take 22 canonical"]
    parseiBeacon_null_iff [of "canonical[1 := 0x16]"]
  by (simp add: canonical_def)

text \<open>
  Claim C3. On a buffer of at least 23 bytes that is decoded, the UUID is bytes 2 to 17 as
  lowercase two-digit hexadecimal in the 8-4-4-4-12 grouping, major is bytes 18 and 19 and
  minor bytes 20 and 21 as unsigned 16-bit big-endian integers, and the TX power is byte 22
  in two's complement.
\<close>

theorem parseiBeacon_fields:
  assumes "23 \<le> length bs" and "parseiBeacon (of_bytes bs) = Some r"
  shows "uuid r = uuid_text (take 16 (drop 2 bs))
    \<and> major r = be16 (bs ! 18) (bs ! 19)
    \<and> minor r = be16 (bs ! 20) (bs ! 21)
    \<and> txPower r = int8 (bs ! 22)"
  using assms by (auto simp: parseiBeacon_of_bytes split: if_splits)

theorem parseiBeacon_fields_witness:
  "23 \<le> length canonical
   \<and> parseiBeacon (of_bytes canonical) =
       Some \<lparr>uuid = ''e2c56db5-dffb-48d2-b060-d0f5a71096e0'', major = 258, minor = 3,
              txPower = - 59\<rparr>
   \<and> uuid_text (take 16 (drop 2 canonical)) = ''e2c56db5-dffb-48d2-b060-d0f5a71096e0''
   \<and> be16 (canonical ! 18) (canonical ! 19) = 258
   \<and> be16 (canonical ! 20) (canonical ! 21) = 3
   \<and> int8 (canonical ! 22) = - 59"
proof -
  have len: "23 \<le> length canonical" by (simp add: canonical_def)
  have p: "parseiBeacon (of_bytes canonical) =
       Some \<lparr>uuid = ''e2c56db5-dffb-48d2-b060-d0f5a71096e0'', major = 258, minor = 3,
              txPower = - 59\<rparr>"
    by code_simp
  show ?thesis using parseiBeacon_fields [OF len p] len p by simp
qed

text \<open>
  Claim C10. Two buffers of at least 23 bytes that agree on bytes 0 to 22 are decoded to
  the same result, whatever follows.
\<close>

theorem parseiBeacon_trailing_bytes:
  assumes "23 \<le> length a" and "23 \<le> length b" and "take 23 a = take 23 b"
  shows "parseiBeacon (of_bytes a) = parseiBeacon (of_bytes b)"
proof -
  have nth: "\<And>i. i < 23 \<Longrightarrow> a ! i = b ! i"
  proof -
    fix i :: nat
    assume "i < 23"
    then have "a ! i = take 23 a ! i" and "b ! i = take 23 b ! i" by simp_all
    then show "a ! i = b ! i" using assms(3) by simp
  qed
  have "\<And>xs :: byte list. take 16 (drop 2 xs) = take 16 (drop 2 (take 23 xs))"
    by (simp add: drop_take)
  then have "take 16 (drop 2 a) = take 16 (drop 2 b)" using assms(3) by metis
  then show ?thesis using assms(1,2) nth
    by (simp add: parseiBeacon_of_bytes)
qed

theorem parseiBeacon_trailing_bytes_witness:
  "23 \<le> length canonical \<and> 23 \<le> length (canonical @ [0xFF, 0x00])
   \<and> take 23 canonical = take 23 (canonical @ [0xFF, 0x00])
   \<and> parseiBeacon (of_bytes canonical) = parseiBeacon (of_bytes (canonical @ [0xFF, 0x00]))"
proof -
  have 1: "23 \<le> length canonical" by (simp add: canonical_def)
  have 2: "23 \<le> length (canonical @ [0xFF, 0x00])" by (simp add: canonical_def)
  have 3: "take 23 canonical = take 23 (canonical @ [0xFF, 0x00])" by (simp add: canonical_def)
  show ?thesis using parseiBeacon_trailing_bytes [OF 1 2 3] 1 2 3 by simp
qed

text \<open>
  Claim C8. The decoder is total: on every view, also one whose accesses fault, it returns
  a record or \<^verbatim>\<open>null\<close>, and a fault inside the \<^verbatim>\<open>try\<close> block comes out as \<^verbatim>\<open>null\<close>.
  Every function it is built from is terminating.
\<close>

theorem parseiBeacon_never_throws:
  "(\<forall>e. parseiBeacon_try dv = Inl e \<longrightarrow> parseiBeacon dv = None)
   \<and> (\<forall>r. parseiBeacon_try dv = Inr r \<longrightarrow> parseiBeacon dv = r)
   \<and> (parseiBeacon dv = None \<or> (\<exists>r. parseiBeacon dv = Some r))"
  by (auto simp: parseiBeacon_def split: sum.splits)

theorem parseiBeacon_never_throws_witness:
  "parseiBeacon_try \<lparr>buffer = [], byteOffset = 0, byteLength = 23\<rparr> = Inl TypeError
   \<and> parseiBeacon \<lparr>buffer = [], byteOffset = 0, byteLength = 23\<rparr> = None"
proof -
  have f: "parseiBeacon_try \<lparr>buffer = [], byteOffset = 0, byteLength = 23\<rparr> = Inl TypeError"
    by (simp add: parseiBeacon_try_out_of_bounds out_of_bounds_def)
  show ?thesis
    using f parseiBeacon_never_throws [of "\<lparr>buffer = [], byteOffset = 0, byteLength = 23\<rparr>"]
    by simp
qed


section \<open>The hexadecimal rendering read back\<close>

lemma hex_value_digit: "d < 16 \<Longrightarrow> hex_value (''0123456789abcdef'' ! d) = Some d"
proof -
  assume "d < 16"
  then have "d \<in> {0, 1, 2, 3, 4, 5, 6, 7, 8, 9, 10, 11, 12, 13, 14, 15}"
    by (simp add: numeral_eq_Suc less_Suc_eq)
  then show ?thesis by (auto simp: hex_value_def)
qed

lemma hex_digit_no_space: "d < 16 \<Longrightarrow> ''0123456789abcdef'' ! d \<noteq> CHR '' ''"
proof -
  assume "d < 16"
  then have "d \<in> {0, 1, 2, 3, 4, 5, 6, 7, 8, 9, 10, 11, 12, 13, 14, 15}"
    by (simp add: numeral_eq_Suc less_Suc_eq)
  then show ?thesis by auto
qed

lemma nibbles: "unat (b :: byte) div 16 < 16" "unat b mod 16 < 16"
proof -
  have "unat b < 256" using unsigned_less [of b, where ?'a = nat] by simp
  then show "unat b div 16 < 16" by simp
  show "unat b mod 16 < 16" by simp
qed

lemma parse_hex_pair_hex_pair: "parse_hex_pair (hex_pair b) = Some b"
proof -
  have "16 * (unat b div 16) + unat b mod 16 = unat b" by simp
  then have "(of_nat (16 * (unat b div 16) + unat b mod 16) :: byte) = b" by simp
  then show ?thesis
    by (simp add: parse_hex_pair_def hex_pair_def hex_value_digit nibbles)
qed

lemma hex_pair_no_space: "CHR '' '' \<notin> set (hex_pair b)"
  using hex_digit_no_space [OF nibbles(1), of b] hex_digit_no_space [OF nibbles(2), of b]
  by (auto simp: hex_pair_def)

lemma space_fields_last: "CHR '' '' \<notin> set x \<Longrightarrow> space_fields w x = (if w @ x = [] then [] else [w @ x])"
  by (induction x arbitrary: w) auto

lemma space_fields_first:
  "CHR '' '' \<notin> set x \<Longrightarrow>
     space_fields w (x @ CHR '' '' # rest) = (if w @ x = [] then [] else [w @ x]) @ space_fields [] rest"
  by (induction x arbitrary: w) auto

lemma split_spaces_join: "split_spaces (join '' '' (map hex_pair bs)) = map hex_pair bs"
proof (induction bs rule: induct_list012)
  case 1
  then show ?case by (simp add: split_spaces_def)
next
  case (2 b)
  have "hex_pair b \<noteq> []" by (simp add: hex_pair_def)
  then show ?case using space_fields_last [OF hex_pair_no_space, of "[]" b]
    by (simp add: split_spaces_def)
next
  case (3 b c cs)
  have ne: "hex_pair b \<noteq> []" by (simp add: hex_pair_def)
  have "space_fields [] (hex_pair b @ CHR '' '' # join '' '' (map hex_pair (c # cs)))
      = [hex_pair b] @ space_fields [] (join '' '' (map hex_pair (c # cs)))"
    using ne space_fields_first [OF hex_pair_no_space, of "[]" b] by simp
  then show ?case using "3.IH"(2) by (simp add: split_spaces_def)
qed

lemma those_map_Some: "those (map Some xs) = Some xs"
  by (induction xs) simp_all

lemma hexString_hex_pair: "hexString buf = join '' '' (map hex_pair buf)"
  using hex2_hex_pair by (simp add: hexString_def cong: map_cong)

text \<open>
  Claim C4. The hexadecimal rendering of \<^verbatim>\<open>logDataView\<close> is one two-digit lowercase
  hexadecimal value per byte, in buffer order, separated by spaces; split on spaces and
  read back pair by pair it gives the buffer again. (The empty buffer renders as the
  empty string, which has no field.)
\<close>

theorem hexString_round_trip:
  "hexString buf = join '' '' (map hex_pair buf) \<and> parse_hex_line (hexString buf) = Some buf"
proof -
  have "map parse_hex_pair (map hex_pair buf) = map Some buf"
    by (simp add: parse_hex_pair_hex_pair)
  then show ?thesis
    by (simp only: hexString_hex_pair parse_hex_line_def split_spaces_join those_map_Some)
qed

section \<open>Company names\<close>

lemma digit_value: "d < 10 \<Longrightarrow> (of_char (digit_char d) :: nat) - 48 = d"
proof -
  assume "d < 10"
  then have "d \<in> {0, 1, 2, 3, 4, 5, 6, 7, 8, 9}"
    by (simp add: numeral_eq_Suc less_Suc_eq)
  then show ?thesis by (auto simp: digit_char_def)
qed

lemma decimal_value_snoc:
  "decimal_value (s @ [c]) = 10 * decimal_value s + (of_char c - 48)"
  by (simp add: decimal_value_def)

lemma decimal_value_toString: "decimal_value (toString 10 n) = n"
proof (induction n rule: less_induct)
  case (less n)
  show ?case
  proof (cases "n < 10")
    case True
    then have "toString 10 n = [digit_char n]" by (rule toString_small)
    then show ?thesis using True by (simp add: decimal_value_def digit_value)
  next
    case False
    then have t: "toString 10 n = toString 10 (n div 10) @ [digit_char (n mod 10)]"
      by (subst toString.simps) simp
    have "n div 10 < n" using False by simp
    then have ih: "decimal_value (toString 10 (n div 10)) = n div 10" by (rule less.IH)
    have "decimal_value (toString 10 n)
        = decimal_value (toString 10 (n div 10) @ [digit_char (n mod 10)])"
      by (subst t) (rule refl)
    also have "\<dots> = 10 * (n div 10) + n mod 10"
      by (simp only: decimal_value_snoc ih) (simp add: digit_value)
    finally show ?thesis by simp
  qed
qed

lemma companies_unknown: "cid \<notin> known_companies \<Longrightarrow> map_of companies cid = None"
  by (simp add: known_companies_def companies_def)

text \<open>
  Claim C5. The company lookup gives a name for every unsigned 16-bit identifier, and for
  one outside the known set the name is \<^verbatim>\<open>Unknown Company (<id>)\<close> with the identifier in
  decimal.
\<close>

theorem getCompanyName_unknown:
  assumes "cid < 65536"
  shows "getCompanyName cid \<noteq> []
    \<and> (cid \<notin> known_companies \<longrightarrow>
         getCompanyName cid = ''Unknown Company ('' @ toString 10 cid @ '')''
         \<and> decimal_value (toString 10 cid) = cid)"
  by (auto simp: getCompanyName_def companies_unknown decimal_value_toString
      split: option.splits)

theorem getCompanyName_unknown_witness:
  "(65535 :: nat) < 65536 \<and> 65535 \<notin> known_companies
   \<and> getCompanyName 65535 = ''Unknown Company (65535)''
   \<and> decimal_value ''65535'' = 65535"
proof -
  have t: "toString 10 65535 = ''65535''" by (simp add: toString.simps digit_char_def)
  have k: "65535 \<notin> known_companies" by (simp add: known_companies_def)
  show ?thesis using getCompanyName_unknown [of 65535] t k by simp
qed

section \<open>The textual rendering\<close>

lemma index_low: "p < 32 \<Longrightarrow> \<exists>cp. windows_1252_index p = Some cp \<and> cp \<noteq> replacement_character"
proof -
  assume "p < 32"
  then have "p \<in> {0, 1, 2, 3, 4, 5, 6, 7, 8, 9, 10, 11, 12, 13, 14, 15, 16, 17, 18, 19, 20,
      21, 22, 23, 24, 25, 26, 27, 28, 29, 30, 31}"
    by (simp add: numeral_eq_Suc less_Suc_eq)
  then show ?thesis by (auto simp: windows_1252_index_def replacement_character_def)
qed

lemma index_total: "p < 128 \<Longrightarrow> \<exists>cp. windows_1252_index p = Some cp \<and> cp \<noteq> replacement_character"
proof (cases "p < 32")
  case True
  then show ?thesis by (rule index_low)
next
  case False
  assume "p < 128"
  then show ?thesis using False by (simp add: windows_1252_index_def replacement_character_def)
qed

lemma decode_not_replaced: "single_byte_decode windows_1252_index b \<noteq> replacement_character"
proof (cases "unat b < 0x80")
  case True
  then show ?thesis by (simp add: single_byte_decode_def replacement_character_def)
next
  case False
  have "unat b < 256" using unsigned_less [of b, where ?'a = nat] by simp
  then have "unat b - 0x80 < 128" by simp
  then obtain cp where "windows_1252_index (unat b - 0x80) = Some cp" "cp \<noteq> replacement_character"
    using index_total by blast
  then show ?thesis using False by (simp add: single_byte_decode_def)
qed

lemma special_range:
  "map_of windows_1252_special n = Some cp \<Longrightarrow> 0x80 \<le> n \<and> n < 0xA0 \<and> 0xFF < cp"
  by (auto simp: windows_1252_special_def split: if_splits)

lemma special_inverse:
  "map_of windows_1252_special n = Some cp \<Longrightarrow> map_of windows_1252_special m = Some cp \<Longrightarrow> n = m"
  by (auto simp: windows_1252_special_def split: if_splits)

lemma decode_windows_1252:
  "single_byte_decode windows_1252_index b = windows_1252_char b"
proof -
  have u: "unat b < 256" using unsigned_less [of b, where ?'a = nat] by simp
  consider "unat b < 0x80" | "0x80 \<le> unat b" "unat b < 0xA0" | "0xA0 \<le> unat b"
    by linarith
  then show ?thesis
  proof cases
    case 1
    then have "map_of windows_1252_special (unat b) = None"
      using special_range [of "unat b"] by (cases "map_of windows_1252_special (unat b)") auto
    then show ?thesis using 1 by (simp add: single_byte_decode_def windows_1252_char_def)
  next
    case 2
    then have "unat b - 0x80 < 32" by simp
    then have "unat b - 0x80 \<in> {0, 1, 2, 3, 4, 5, 6, 7, 8, 9, 10, 11, 12, 13, 14, 15, 16, 17,
        18, 19, 20, 21, 22, 23, 24, 25, 26, 27, 28, 29, 30, 31}"
      by (simp add: numeral_eq_Suc less_Suc_eq)
    then obtain p where p: "unat b = 0x80 + p"
      "p \<in> {0, 1, 2, 3, 4, 5, 6, 7, 8, 9, 10, 11, 12, 13, 14, 15, 16, 17,
        18, 19, 20, 21, 22, 23, 24, 25, 26, 27, 28, 29, 30, 31}"
      using 2 by (metis le_add_diff_inverse)
    from p(2) show ?thesis unfolding single_byte_decode_def windows_1252_char_def p(1)
      by (auto simp: windows_1252_index_def windows_1252_special_def)
  next
    case 3
    then have "map_of windows_1252_special (unat b) = None"
      using special_range [of "unat b"] by (cases "map_of windows_1252_special (unat b)") auto
    moreover have "\<not> unat b - 0x80 < 32" and "unat b - 0x80 < 128" using 3 u by arith+
    then have "windows_1252_index (unat b - 0x80) = Some (unat b)"
      using 3 by (simp add: windows_1252_index_def)
    ultimately show ?thesis using 3
      by (simp add: single_byte_decode_def windows_1252_char_def)
  qed
qed

lemma windows_1252_char_inj: "windows_1252_char b = windows_1252_char c \<Longrightarrow> b = c"
proof -
  assume e: "windows_1252_char b = windows_1252_char c"
  have ub: "unat b < 256" using unsigned_less [of b, where ?'a = nat] by simp
  have uc: "unat c < 256" using unsigned_less [of c, where ?'a = nat] by simp
  have "unat b = unat c"
  proof (cases "map_of windows_1252_special (unat b)")
    case None
    show ?thesis
    proof (cases "map_of windows_1252_special (unat c)")
      case None
      then show ?thesis using e \<open>map_of windows_1252_special (unat b) = None\<close>
        by (simp add: windows_1252_char_def)
    next
      case (Some cp)
      then have "0xFF < cp" using special_range by blast
      then show ?thesis using e None Some ub by (simp add: windows_1252_char_def)
    qed
  next
    case (Some cp)
    then have big: "0xFF < cp" using special_range by blast
    show ?thesis
    proof (cases "map_of windows_1252_special (unat c)")
      case None
      then show ?thesis using e Some big uc by (simp add: windows_1252_char_def)
    next
      case (Some cq)
      then show ?thesis
        using e \<open>map_of windows_1252_special (unat b) = Some cp\<close> special_inverse
        by (simp add: windows_1252_char_def)
    qed
  qed
  then show ?thesis by (simp add: word_unat_eq_iff)
qed

lemma asciiString_windows_1252: "asciiString buf = map windows_1252_char buf"
  using decode_windows_1252 by (simp add: asciiString_def cong: map_cong)

text \<open>
  Claim C6, as stated, fails: a byte outside the printable range is not mapped to a
  substitution character. The control byte \<^verbatim>\<open>0x07\<close> comes out as U+0007 and the byte
  \<^verbatim>\<open>0xE9\<close> as U+00E9.
\<close>

theorem asciiString_control_byte:
  "\<not> printable_ascii 0x07 \<and> asciiString [0x07] = [0x07]
   \<and> asciiString [0x07] \<noteq> [replacement_character]
   \<and> \<not> printable_ascii 0xE9 \<and> asciiString [0xE9] = [0xE9]"
  by (simp add: printable_ascii_def asciiString_def single_byte_decode_def
      windows_1252_index_def replacement_character_def)

text \<open>
  Claim C6, amended. The textual rendering has no error condition and yields one
  character per byte, the windows-1252 character of that byte: a byte below \<^verbatim>\<open>0x80\<close>
  yields the character of the same code, control characters included. The substitution
  character U+FFFD never occurs, and different buffers give different texts.
\<close>

theorem asciiString_total:
  "asciiString buf = map windows_1252_char buf
   \<and> length (asciiString buf) = length buf
   \<and> (\<forall>i < length buf. unat (buf ! i) < 0x80 \<longrightarrow> asciiString buf ! i = unat (buf ! i))
   \<and> replacement_character \<notin> set (asciiString buf)
   \<and> (\<forall>other. asciiString other = asciiString buf \<longrightarrow> other = buf)"
proof (intro conjI allI impI)
  show "asciiString buf = map windows_1252_char buf" by (rule asciiString_windows_1252)
next
  show "length (asciiString buf) = length buf" by (simp add: asciiString_def)
next
  fix i
  assume "i < length buf" and "unat (buf ! i) < 0x80"
  then show "asciiString buf ! i = unat (buf ! i)"
    by (simp add: asciiString_def single_byte_decode_def)
next
  show "replacement_character \<notin> set (asciiString buf)"
    using decode_not_replaced [THEN not_sym] by (auto simp: asciiString_def)
next
  fix other
  assume "asciiString other = asciiString buf"
  then have "map windows_1252_char other = map windows_1252_char buf"
    by (simp add: asciiString_windows_1252)
  moreover have "inj windows_1252_char" using windows_1252_char_inj by (rule injI)
  ultimately show "other = buf" by (simp add: inj_map_eq_map)
qed

theorem asciiString_total_witness:
  "length (asciiString [0x07, 0x41, 0x80, 0x9F, 0xE9]) = 5
   \<and> asciiString [0x07, 0x41, 0x80, 0x9F, 0xE9] ! 0 = 0x07
   \<and> asciiString [0x07, 0x41, 0x80, 0x9F, 0xE9] ! 1 = 0x41
   \<and> asciiString [0x07, 0x41, 0x80, 0x9F, 0xE9] = [0x07, 0x41, 0x20AC, 0x0178, 0xE9]
   \<and> map windows_1252_char [0x07, 0x41, 0x80, 0x9F, 0xE9] = [0x07, 0x41, 0x20AC, 0x0178, 0xE9]"
proof -
  have "map windows_1252_char [0x07, 0x41, 0x80, 0x9F, 0xE9] = [0x07, 0x41, 0x20AC, 0x0178, 0xE9]"
    by (simp add: windows_1252_char_def windows_1252_special_def)
  then show ?thesis using asciiString_total [of "[0x07, 0x41, 0x80, 0x9F, 0xE9]"] by simp
qed


section \<open>The handler's fallback\<close>









section \<open>Subscriptions of the scan session\<close>

text \<open>
  Claim C9, as stated, fails. After a first scan is granted and its 30-second timer has
  run, the scan is still active and the button offers to start again; the second start
  leaves the first listener in place, so one advertisement runs the handler twice. Two
  \<^verbatim>\<open>startScan\<close> calls in a row do the same.
\<close>

theorem startScan_during_session:
  "scans (click True Granted initial) = [True]
   \<and> isScanning (fire_timer (click True Granted initial)) = False
   \<and> scans (fire_timer (click True Granted initial)) = [True]
   \<and> listeners (fire_timer (click True Granted initial)) = [0]
   \<and> scans (click True Granted (fire_timer (click True Granted initial))) = [True, True]
   \<and> listeners (click True Granted (fire_timer (click True Granted initial))) = [0, 1]
   \<and> receive bare_event (click True Granted (fire_timer (click True Granted initial)))
       = handleAdvertisement bare_event @ handleAdvertisement bare_event
   \<and> handleAdvertisement bare_event \<noteq> []
   \<and> listeners (startScan True Granted (startScan True Granted initial)) = [0, 1]"
  by (simp add: click_def fire_timer_def startScan_def stopScan_def initial_def receive_def
      handleAdvertisement_def)

text \<open>
  Claim C9, amended. No subscription is ever torn down: a granted \<^verbatim>\<open>startScan\<close> adds one
  listener and keeps the earlier ones, a rejected or unavailable one changes none,
  neither \<^verbatim>\<open>stopScan\<close> nor the timer removes any, and a click on the button keeps all
  there are; after a granted start an advertisement runs the handler once more than
  before.
\<close>

theorem startScan_adds_listener:
  "listeners (startScan True Granted st) = listeners st @ [length (scans st)]
   \<and> listeners (startScan available Rejected st) = listeners st
   \<and> listeners (startScan False outcome st) = listeners st
   \<and> listeners (stopScan captured st) = listeners st
   \<and> listeners (fire_timer st) = listeners st
   \<and> (\<exists>more. listeners (click available outcome st) = listeners st @ more)
   \<and> receive event (startScan True Granted st) = receive event st @ handleAdvertisement event"
  by (simp add: click_def startScan_def stopScan_def fire_timer_def receive_def
      split: option.splits list.splits prod.splits request_outcome.splits)

end
